theory Spec2Isabelle
  imports Complex_Main "HOL-Library.Char_ord" "HOL-Library.List_Lexorder" "HOL-Library.Sublist"
begin

section \<open>JavaScript strings and the library functions the servers call\<close>



definition isSpace :: "char \<Rightarrow> bool" where
  "isSpace c = (c \<in> set [CHR 0x09, CHR 0x0A, CHR 0x0B, CHR 0x0C, CHR 0x0D, CHR '' ''])"

definition isDigit :: "char \<Rightarrow> bool" where
  "isDigit c = (c \<in> set ''0123456789'')"

definition isWordChar :: "char \<Rightarrow> bool" where
  "isWordChar c =
     (c \<in> set ''abcdefghijklmnopqrstuvwxyzABCDEFGHIJKLMNOPQRSTUVWXYZ0123456789_'')"

definition toLowerChar :: "char \<Rightarrow> char" where
  "toLowerChar c =
     (case map_of (zip ''ABCDEFGHIJKLMNOPQRSTUVWXYZ'' ''abcdefghijklmnopqrstuvwxyz'') c of
        Some l \<Rightarrow> l
      | None \<Rightarrow> c)"

definition toUpperChar :: "char \<Rightarrow> char" where
  "toUpperChar c =
     (case map_of (zip ''abcdefghijklmnopqrstuvwxyz'' ''ABCDEFGHIJKLMNOPQRSTUVWXYZ'') c of
        Some u \<Rightarrow> u
      | None \<Rightarrow> c)"

definition toLowerCase :: "string \<Rightarrow> string" where
  "toLowerCase s = map toLowerChar s"

definition trim :: "string \<Rightarrow> string" where
  "trim s = rev (dropWhile isSpace (rev (dropWhile isSpace s)))"

text \<open>\<open>t.includes(n)\<close>: \<open>n\<close> occurs in \<open>t\<close> as a contiguous substring.\<close>

fun includes_str :: "string \<Rightarrow> string \<Rightarrow> bool" where
  "includes_str [] n = (n = [])"
| "includes_str (c # cs) n = (prefix n (c # cs) \<or> includes_str cs n)"



text \<open>\<open>lines.join("\n")\<close>.\<close>

fun join :: "string \<Rightarrow> string list \<Rightarrow> string" where
  "join sep [] = []"
| "join sep [l] = l"
| "join sep (l # m # ls) = l @ sep @ join sep (m # ls)"

subsection \<open>Regular expressions\<close>

text \<open>
  The two regular expressions of the source are terms of \<open>rx\<close>. The matcher follows the
  backtracking semantics of ECMAScript: \<open>matches r (p, cs)\<close> lists, in the order in which
  backtracking tries them, the states in which a match of \<open>r\<close> can end when it starts with
  \<open>cs\<close> left to read and \<open>p\<close> the character just before. A quantifier is greedy and an
  iteration that consumes nothing is dropped, as in ECMAScript.
\<close>

datatype rx =
    Cls "char \<Rightarrow> bool"
  | WordB
  | Eps
  | Seq rx rx
  | Alt rx rx
  | Star rx

type_synonym mstate = "char option \<times> string"

definition isWordBefore :: "char option \<Rightarrow> bool" where
  "isWordBefore p = (case p of None \<Rightarrow> False | Some c \<Rightarrow> isWordChar c)"

definition isWordAfter :: "string \<Rightarrow> bool" where
  "isWordAfter cs = (case cs of [] \<Rightarrow> False | c # _ \<Rightarrow> isWordChar c)"

fun matches :: "rx \<Rightarrow> mstate \<Rightarrow> mstate list" where
  "matches (Cls P) (p, []) = []"
| "matches (Cls P) (p, c # cs) = (if P c then [(Some c, cs)] else [])"
| "matches WordB (p, cs) = (if isWordBefore p \<noteq> isWordAfter cs then [(p, cs)] else [])"
| "matches Eps x = [x]"
| "matches (Seq r1 r2) x = concat (map (matches r2) (matches r1 x))"
| "matches (Alt r1 r2) x = matches r1 x @ matches r2 x"
| "matches (Star r) x =
     concat (map (matches (Star r))
               (filter (\<lambda>y. length (snd y) < length (snd x)) (matches r x))) @ [x]"

text \<open>\<open>r+\<close>, \<open>r?\<close>, a literal and a literal under the flag \<open>i\<close>.\<close>

definition Plus :: "rx \<Rightarrow> rx" where
  "Plus r = Seq r (Star r)"

definition Opt :: "rx \<Rightarrow> rx" where
  "Opt r = Alt r Eps"

fun lit :: "string \<Rightarrow> rx" where
  "lit [] = Eps"
| "lit (c # cs) = Seq (Cls (\<lambda>x. x = c)) (lit cs)"

fun litI :: "string \<Rightarrow> rx" where
  "litI [] = Eps"
| "litI (c # cs) = Seq (Cls (\<lambda>x. toUpperChar x = toUpperChar c)) (litI cs)"

text \<open>
  \<open>RegExp.prototype.exec\<close> without the flag \<open>g\<close>: the leftmost start at which the
  pattern matches, and there the first match in backtracking order; the result is the
  matched substring (\<open>match[0]\<close>).
\<close>

fun search :: "rx \<Rightarrow> char option \<Rightarrow> string \<Rightarrow> string option" where
  "search r p [] = (case matches r (p, []) of [] \<Rightarrow> None | _ # _ \<Rightarrow> Some [])"
| "search r p (c # cs) =
     (case matches r (p, c # cs) of
        [] \<Rightarrow> search r (Some c) cs
      | (_, rest) # _ \<Rightarrow> Some (take (length (c # cs) - length rest) (c # cs)))"

definition regex_match :: "rx \<Rightarrow> string \<Rightarrow> string option" where
  "regex_match r s = search r None s"

definition regex_test :: "rx \<Rightarrow> string \<Rightarrow> bool" where
  "regex_test r s = (regex_match r s \<noteq> None)"

section \<open>Simple variant: the intent classifier\<close>

datatype state = S1 | S2 | S3 | S4

text \<open>\<open>/\bdone\b/\<close>\<close>

definition done_rx :: rx where
  "done_rx = Seq WordB (Seq (lit ''done'') WordB)"

definition doneSignal :: "string \<Rightarrow> bool" where
  "doneSignal t =
     (regex_test done_rx t \<or>
      list_ex (includes_str t)
        [''i did'', ''i wrote'', ''i opened'', ''i sent'', ''i renamed'', ''finished'',
         ''completed''])"

definition clarityRequest :: "string \<Rightarrow> bool" where
  "clarityRequest t =
     list_ex (includes_str t)
       [''what should i focus'', ''help me decide'', ''which should i'', ''i need clarity'',
        ''prioritize'', ''priority'', ''what's the plan'']"

definition momentumRequest :: "string \<Rightarrow> bool" where
  "momentumRequest t =
     list_ex (includes_str t)
       [''what next'', ''next step'', ''keep going'', ''continue'', ''now what'']"

definition stuckSignal :: "string \<Rightarrow> bool" where
  "stuckSignal t =
     list_ex (includes_str t)
       [''overwhelmed'', ''stuck'', ''procrast'', ''spinning'', ''confus'', ''scattered'',
        ''paraly'', ''can't start'', ''don't know where to start'']"

definition inferState :: "string \<Rightarrow> state" where
  "inferState userText =
     (let t = trim (toLowerCase userText) in
      if doneSignal t then S2
      else if clarityRequest t then S4
      else if momentumRequest t then S3
      else if stuckSignal t then S1
      else S1)"



section \<open>Richer variant: the \<open>next_best_step\<close> composer\<close>

text \<open>
  The arguments of a tool call are a JSON object: a finite map from keys to values, of
  which the schemas only tell strings from everything else.
\<close>

datatype jsval = Str string | Other

type_synonym arguments = "string \<rightharpoonup> jsval"

datatype error =
    ZodError
  | UnknownTool string
  | AssetsNotFound
  | WidgetHtmlNotFound
  | ENOTDIR
  | EISDIR
  | InvalidUrl

record args =
  situation :: string
  constraints :: "string option"
  desired_outcome :: "string option"

text \<open>\<open>z.string().optional()\<close>: an absent key is accepted, a value must be a string.\<close>

definition optional_string :: "jsval option \<Rightarrow> error + string option" where
  "optional_string v =
     (case v of None \<Rightarrow> Inr None | Some (Str s) \<Rightarrow> Inr (Some s) | Some Other \<Rightarrow> Inl ZodError)"

text \<open>
  \<open>nextBestStepParser.parse\<close>: \<open>situation\<close> is \<open>z.string().min(1)\<close>, the other two are
  optional strings; unknown keys are dropped.
\<close>

definition nextBestStepParser :: "arguments \<Rightarrow> error + args" where
  "nextBestStepParser a =
     (case a ''situation'' of
        Some (Str s) \<Rightarrow>
          if length s < 1 then Inl ZodError
          else (case optional_string (a ''constraints'') of
                  Inl e \<Rightarrow> Inl e
                | Inr c \<Rightarrow>
                    (case optional_string (a ''desired_outcome'') of
                       Inl e \<Rightarrow> Inl e
                     | Inr d \<Rightarrow> Inr \<lparr>situation = s, constraints = c, desired_outcome = d\<rparr>))
      | _ \<Rightarrow> Inl ZodError)"

text \<open>\<open>refreshParser.parse\<close>: \<open>message\<close> is \<open>z.string()\<close>.\<close>

definition refreshParser :: "arguments \<Rightarrow> error + string" where
  "refreshParser a = (case a ''message'' of Some (Str m) \<Rightarrow> Inr m | _ \<Rightarrow> Inl ZodError)"

text \<open>
  \<open>/(\d+)\s*(minutes?|mins?|hours?|hrs?)/i\<close>; \<open>unit_rx\<close> is its second group.
\<close>

definition unit_rx :: rx where
  "unit_rx =
     Alt (Seq (litI ''minute'') (Opt (litI ''s'')))
       (Alt (Seq (litI ''min'') (Opt (litI ''s'')))
          (Alt (Seq (litI ''hour'') (Opt (litI ''s'')))
             (Seq (litI ''hr'') (Opt (litI ''s'')))))"

definition timebox_rx :: rx where
  "timebox_rx = Seq (Plus (Cls isDigit)) (Seq (Star (Cls isSpace)) unit_rx)"

text \<open>
  The specification's reading of that pattern: a run of digits, then optional white space,
  then a minute or hour unit word in any case.
\<close>

definition unit_words :: "string list" where
  "unit_words =
     [''minutes'', ''minute'', ''mins'', ''min'', ''hours'', ''hour'', ''hrs'', ''hr'']"

definition is_duration :: "string \<Rightarrow> bool" where
  "is_duration m =
     (\<exists>ds ws u. m = ds @ ws @ u \<and> ds \<noteq> [] \<and> list_all isDigit ds \<and> list_all isSpace ws \<and>
        list_ex (\<lambda>w. map toUpperChar u = map toUpperChar w) unit_words)"

text \<open>
  The same reading as a scan, to pin down which occurrence is meant: at the leftmost
  position where it is possible, the whole run of digits, the whole run of white space
  after it, and the first of the unit words, listed longest first, that the text continues
  with in any case.
\<close>

definition startsWithI :: "string \<Rightarrow> string \<Rightarrow> bool" where
  "startsWithI r w = prefix (map toUpperChar w) (map toUpperChar r)"





definition timebox_of :: "string \<Rightarrow> string" where
  "timebox_of sit =
     (case regex_match timebox_rx sit of Some m \<Rightarrow> m | None \<Rightarrow> ''30 minutes'')"

text \<open>The en dash and the right single quotation mark of the source, in UTF-8.\<close>

definition en_dash :: string where
  "en_dash = [CHR 0xE2, CHR 0x80, CHR 0x93]"

definition right_quote :: string where
  "right_quote = [CHR 0xE2, CHR 0x80, CHR 0x99]"

definition default_constraints :: string where
  "default_constraints = ''One step only. Make it concrete, time-boxed, and low-friction.''"

definition resolve_constraints :: "string option \<Rightarrow> string" where
  "resolve_constraints c =
     (let t = trim (case c of None \<Rightarrow> [] | Some x \<Rightarrow> x)
      in if t = [] then default_constraints else t)"

definition resolve_desired :: "string option \<Rightarrow> string" where
  "resolve_desired d = trim (case d of None \<Rightarrow> [] | Some x \<Rightarrow> x)"

definition heading :: "string \<Rightarrow> string" where
  "heading timebox = ''Next Best Step ('' @ timebox @ ''):''"

text \<open>The template literal \<open>step\<close>: its text after the interpolated timebox, then the whole.\<close>

definition step_tail :: string where
  "step_tail =
     '' timer and produce ONE shippable draft that moves distribution forward (not polish). Pick exactly one: (a) 5 App Store headline variants, (b) one outreach DM, or (c) a 20''
     @ en_dash @
     ''30s UGC script. Write the ugly first draft without editing.''"

definition step_line :: "string \<Rightarrow> string" where
  "step_line timebox = ''Set a '' @ timebox @ step_tail"

definition finishLine :: string where
  "finishLine =
     ''Done = you can paste/share the draft somewhere immediately (even if it'' @ right_quote @
     ''s not perfect).''"


text \<open>
  \<open>detailsLines\<close> before \<open>.filter(Boolean)\<close>: \<open>None\<close> is \<open>null\<close>. The filter drops \<open>null\<close>
  and the empty string.
\<close>

definition detailsLines :: "args \<Rightarrow> string option list" where
  "detailsLines a =
     (let constraints = resolve_constraints (constraints a);
          desired = resolve_desired (desired_outcome a);
          timebox = timebox_of (situation a)
      in [Some (heading timebox),
          Some (step_line timebox),
          Some [],
          Some (''Constraints: '' @ constraints),
          (if desired \<noteq> [] then Some (''Desired outcome: '' @ desired) else None),
          Some [],
          Some finishLine])"

definition truthy :: "string option \<Rightarrow> bool" where
  "truthy l = (case l of None \<Rightarrow> False | Some x \<Rightarrow> x \<noteq> [])"

definition details_of :: "args \<Rightarrow> string" where
  "details_of a = join [CHR 0x0A] (map the (filter truthy (detailsLines a)))"

record inputs_echo =
  in_situation :: string
  in_constraints :: string
  in_desired_outcome :: string

record tool_result =
  content_text :: string
  sc_message :: string
  sc_accentColor :: string
  sc_details :: string
  sc_fromTool :: string
  sc_inputs :: "inputs_echo option"
  meta_invocation :: string

text \<open>
  The \<open>CallToolRequestSchema\<close> handler of the richer variant. \<open>arguments\<close> is \<open>None\<close> when
  the request carries none (\<open>request.params.arguments ?? {}\<close>).
\<close>

definition callTool :: "string \<Rightarrow> arguments option \<Rightarrow> error + tool_result" where
  "callTool name arguments =
     (let a = (case arguments of None \<Rightarrow> Map.empty | Some m \<Rightarrow> m) in
      if name = ''next_best_step'' then
        (case nextBestStepParser a of
           Inl e \<Rightarrow> Inl e
         | Inr args \<Rightarrow>
             Inr \<lparr>content_text = details_of args,
                  sc_message = ''Next Best Step (one action)'',
                  sc_accentColor = ''#2d6cdf'',
                  sc_details = details_of args,
                  sc_fromTool = ''next_best_step'',
                  sc_inputs = Some
                    \<lparr>in_situation = situation args,
                     in_constraints = (case constraints args of None \<Rightarrow> [] | Some c \<Rightarrow> c),
                     in_desired_outcome =
                       (case desired_outcome args of None \<Rightarrow> [] | Some d \<Rightarrow> d)\<rparr>,
                  meta_invocation = ''next_best_step''\<rparr>)
      else if name = ''kitchen-sink-refresh'' then
        (case refreshParser a of
           Inl e \<Rightarrow> Inl e
         | Inr m \<Rightarrow>
             Inr \<lparr>content_text = m,
                  sc_message = m,
                  sc_accentColor = ''#2d6cdf'',
                  sc_details = ''Response returned from window.openai.callTool.'',
                  sc_fromTool = ''kitchen-sink-refresh'',
                  sc_inputs = None,
                  meta_invocation = ''kitchen-sink-refresh''\<rparr>)
      else Inl (UnknownTool name))"


section \<open>HTTP responses, the session directory and the handlers\<close>

text \<open>
  A \<open>ServerResponse\<close>: \<open>status\<close> is \<open>None\<close> until \<open>writeHead\<close> sends the headers, so
  \<open>res.headersSent\<close> is \<open>status \<noteq> None\<close>.
\<close>

record response =
  status :: "nat option"
  headers :: "string \<rightharpoonup> string"
  body :: string
  ended :: bool

definition fresh_response :: response where
  "fresh_response = \<lparr>status = None, headers = Map.empty, body = [], ended = False\<rparr>"

definition headersSent :: "response \<Rightarrow> bool" where
  "headersSent r = (status r \<noteq> None)"

definition setHeader :: "string \<Rightarrow> string \<Rightarrow> response \<Rightarrow> response" where
  "setHeader k v r = r\<lparr>headers := (headers r)(k \<mapsto> v)\<rparr>"

definition writeHead :: "nat \<Rightarrow> (string \<times> string) list \<Rightarrow> response \<Rightarrow> response" where
  "writeHead code hs r = r\<lparr>status := Some code, headers := headers r ++ map_of hs\<rparr>"

definition end_with :: "string \<Rightarrow> response \<Rightarrow> response" where
  "end_with b r = r\<lparr>body := body r @ b, ended := True\<rparr>"

text \<open>
  A \<open>SessionRecord\<close> holds two objects, named here by their identities. The server state
  is the map \<open>sessions\<close>, together with what the closures of \<open>handleSseRequest\<close> capture
  (\<open>sid_of\<close>: the \<open>sessionId\<close> of each transport created so far), the value of
  \<open>transport.onclose\<close> for each transport, the transports that have signalled close, and
  the next unused object identity.

  \<open>transport.onclose\<close> is assigned by \<open>handleSseRequest\<close> and then again by the SDK inside
  \<open>server.connect\<close>, so its value is one of three: the callback of \<open>handleSseRequest\<close>,
  the SDK's wrapper around that callback, or the SDK's handler alone.
\<close>

datatype callback = AppCallback | Wrapped | SdkOwn

record session_record =
  server :: nat
  transport :: nat

record server_state =
  sessions :: "string \<rightharpoonup> session_record"
  sid_of :: "nat \<rightharpoonup> string"
  onclose_of :: "nat \<rightharpoonup> callback"
  closed_transports :: "nat set"
  next_obj :: nat

definition init_state :: server_state where
  "init_state =
     \<lparr>sessions = Map.empty, sid_of = Map.empty, onclose_of = Map.empty,
      closed_transports = {}, next_obj = 0\<rparr>"

text \<open>
  The SDK is not part of the repository. What \<open>server.connect(transport)\<close> does to a
  \<open>transport.onclose\<close> that is already set is a parameter: current releases wrap it (the
  wrapper calls it and then the SDK's own handler), earlier releases replace it. Either
  happens before the first \<open>await\<close> inside \<open>connect\<close>.
\<close>

datatype sdk = Wraps | Overwrites

definition connect_takes_over :: "sdk \<Rightarrow> nat \<Rightarrow> server_state \<Rightarrow> server_state" where
  "connect_takes_over k tr s =
     s\<lparr>onclose_of := (onclose_of s)(tr \<mapsto> (case k of Wraps \<Rightarrow> Wrapped | Overwrites \<Rightarrow> SdkOwn))\<rparr>"

text \<open>
  \<open>handleSseRequest\<close> up to its \<open>await\<close>: the record is stored, \<open>transport.onclose\<close> is
  assigned, and \<open>server.connect\<close> runs up to its own first \<open>await\<close>. The \<open>sessionId\<close> is
  generated by the SDK's transport and is an input here.
\<close>

definition handleSseRequest_begin ::
  "sdk \<Rightarrow> string \<Rightarrow> server_state \<Rightarrow> response \<Rightarrow> server_state \<times> response" where
  "handleSseRequest_begin k sessionId s res =
     (let res1 = setHeader ''Access-Control-Allow-Origin'' ''*'' res;
          srv = next_obj s;
          tr = next_obj s + 1;
          s1 = s\<lparr>sessions := (sessions s)(sessionId \<mapsto> \<lparr>server = srv, transport = tr\<rparr>),
                 sid_of := (sid_of s)(tr \<mapsto> sessionId),
                 next_obj := next_obj s + 2\<rparr>;
          s2 = s1\<lparr>onclose_of := (onclose_of s1)(tr \<mapsto> AppCallback)\<rparr>
      in (connect_takes_over k tr s2, res1))"

text \<open>
  What runs when a transport closes. The callback of \<open>handleSseRequest\<close> (\<open>AppOnclose\<close>)
  deletes the entry and then calls \<open>server.close()\<close>. In the SDK, \<open>server.close()\<close> calls
  \<open>transport.close()\<close>, which ends the response and calls \<open>transport.onclose\<close>, whatever that
  is by then. The calls are nested, not queued: each runs inside the one before. A call
  that never returns has the value \<open>None\<close>; in Node the nesting ends in a stack overflow,
  and the model follows the run no further.
\<close>

datatype call = TransportOnclose nat | AppOnclose nat | ServerClose nat | TransportClose nat

partial_function (option) exec :: "call \<Rightarrow> server_state \<Rightarrow> server_state option" where
  "exec c s =
     (case c of
        TransportOnclose tr \<Rightarrow>
          (case onclose_of s tr of
             None \<Rightarrow> Some s
           | Some AppCallback \<Rightarrow> exec (AppOnclose tr) s
           | Some Wrapped \<Rightarrow> Option.bind (exec (AppOnclose tr) s) (\<lambda>s'. Some s')
           | Some SdkOwn \<Rightarrow> Some s)
      | AppOnclose tr \<Rightarrow>
          (case sid_of s tr of
             None \<Rightarrow> Some s
           | Some sessionId \<Rightarrow>
               exec (ServerClose tr) (s\<lparr>sessions := (sessions s)(sessionId := None)\<rparr>))
      | ServerClose tr \<Rightarrow> exec (TransportClose tr) s
      | TransportClose tr \<Rightarrow> exec (TransportOnclose tr) s)"

text \<open>The \<open>catch\<close> block of \<open>handleSseRequest\<close>, run when \<open>server.connect\<close> throws.\<close>

definition handleSseRequest_catch ::
  "nat \<Rightarrow> server_state \<Rightarrow> response \<Rightarrow> server_state \<times> response" where
  "handleSseRequest_catch tr s res =
     (case sid_of s tr of
        None \<Rightarrow> (s, res)
      | Some sessionId \<Rightarrow>
          (s\<lparr>sessions := (sessions s)(sessionId := None)\<rparr>,
           if \<not> headersSent res
           then end_with ''Failed to establish SSE connection'' (writeHead 500 [] res)
           else res))"

text \<open>
  The transport's \<open>handlePostMessage\<close> belongs to the SDK: it is a parameter, which given
  the transport and the response so far either returns or throws, leaving a response.
\<close>

datatype outcome = Returned response | Threw response

datatype effect = Lookup string | Delegate nat

text \<open>
  \<open>handlePostMessage\<close>, the same in both variants but for logging. \<open>sessionId\<close> is the
  result of \<open>url.searchParams.get("sessionId")\<close>, \<open>None\<close> for \<open>null\<close>. The second component
  records the lookups in \<open>sessions\<close> and the calls of the transport.
\<close>

definition handlePostMessage ::
  "server_state \<Rightarrow> (nat \<Rightarrow> response \<Rightarrow> outcome) \<Rightarrow> string option \<Rightarrow> response
     \<Rightarrow> response \<times> effect list" where
  "handlePostMessage s transport_handle sessionId res =
     (let res1 = setHeader ''Access-Control-Allow-Origin'' ''*'' res;
          res2 = setHeader ''Access-Control-Allow-Headers'' ''content-type'' res1
      in case sessionId of
           None \<Rightarrow> (end_with ''Missing sessionId query parameter'' (writeHead 400 [] res2), [])
         | Some sid \<Rightarrow>
             if sid = [] then
               (end_with ''Missing sessionId query parameter'' (writeHead 400 [] res2), [])
             else
               (case sessions s sid of
                  None \<Rightarrow> (end_with ''Unknown session'' (writeHead 404 [] res2), [Lookup sid])
                | Some session \<Rightarrow>
                    (case transport_handle (transport session) res2 of
                       Returned r \<Rightarrow> (r, [Lookup sid, Delegate (transport session)])
                     | Threw r \<Rightarrow>
                         (if \<not> headersSent r
                          then end_with ''Failed to process message'' (writeHead 500 [] r)
                          else r,
                          [Lookup sid, Delegate (transport session)]))))"

subsection \<open>The session life cycle as events\<close>

text \<open>
  Handlers run to their next \<open>await\<close> without interruption, so the directory changes in
  these steps: an SSE \<open>GET\<close> reaches its \<open>await\<close>, a handshake succeeds or throws, a
  transport signals close (which calls \<open>transport.onclose\<close>), a \<open>POST\<close> is handled. The
  result is \<open>None\<close> when the step does not return.
\<close>

datatype event =
    SseGet string
  | ConnectOk nat
  | ConnectFail nat
  | Close nat
  | Post "string option"

definition step :: "sdk \<Rightarrow> event \<Rightarrow> server_state \<Rightarrow> server_state option" where
  "step k e s =
     (case e of
        SseGet sessionId \<Rightarrow> Some (fst (handleSseRequest_begin k sessionId s fresh_response))
      | ConnectOk tr \<Rightarrow> Some s
      | ConnectFail tr \<Rightarrow> Some (fst (handleSseRequest_catch tr s fresh_response))
      | Close tr \<Rightarrow>
          (if sid_of s tr = None then Some s
           else exec (TransportOnclose tr)
                  (s\<lparr>closed_transports := insert tr (closed_transports s)\<rparr>))
      | Post sessionId \<Rightarrow> Some s)"

definition run :: "sdk \<Rightarrow> event list \<Rightarrow> server_state \<Rightarrow> server_state option" where
  "run k es s = foldl (\<lambda>so e. Option.bind so (step k e)) (Some s) es"

text \<open>The status and body with which a \<open>POST\<close> bearing \<open>sid\<close> is answered in state \<open>s\<close>.\<close>

definition post_reply :: "server_state \<Rightarrow> string \<Rightarrow> nat option \<times> string" where
  "post_reply s sid =
     (let r = fst (handlePostMessage s (\<lambda>tr r. Returned r) (Some sid) fresh_response)
      in (status r, body r))"

subsection \<open>The routers\<close>

text \<open>
  \<open>req.url\<close> is missing (\<open>NoUrl\<close>), or \<open>new URL\<close> throws on it (\<open>BadUrl\<close>), or it parses
  into a path and the value of the query parameter \<open>sessionId\<close>.
\<close>

datatype req_url = NoUrl | BadUrl | Url string "string option"

record request =
  req_method :: string
  url :: req_url

datatype action =
    Respond response
  | CallHandleSseRequest response
  | CallHandlePostMessage response "string option"

definition ssePath :: string where
  "ssePath = ''/mcp''"

definition postPath :: string where
  "postPath = ''/mcp/messages''"

definition preflight :: "response \<Rightarrow> response" where
  "preflight res =
     end_with []
       (writeHead 204
          [(''Access-Control-Allow-Origin'', ''*''),
           (''Access-Control-Allow-Methods'', ''GET, POST, OPTIONS''),
           (''Access-Control-Allow-Headers'', ''content-type'')] res)"

definition dq :: string where
  "dq = [CHR 0x22]"

definition root_info :: string where
  "root_info =
     ''{'' @ dq @ ''name'' @ dq @ '':'' @ dq @ ''EliteMindset MCP Server'' @ dq @ '','' @
     dq @ ''version'' @ dq @ '':'' @ dq @ ''1.0.0'' @ dq @ '','' @
     dq @ ''tool'' @ dq @ '':'' @ dq @ ''next_best_step'' @ dq @ '','' @
     dq @ ''endpoints'' @ dq @ '':{'' @
     dq @ ''sse'' @ dq @ '':'' @ dq @ ssePath @ dq @ '','' @
     dq @ ''post'' @ dq @ '':'' @ dq @ postPath @ dq @ '','' @
     dq @ ''health'' @ dq @ '':'' @ dq @ ''/healthz'' @ dq @ ''}}''"

text \<open>The request handler of the simple variant.\<close>

definition router_simple :: "request \<Rightarrow> response \<Rightarrow> error + action" where
  "router_simple req res =
     (case url req of
        NoUrl \<Rightarrow> Inr (Respond (end_with ''Missing URL'' (writeHead 400 [] res)))
      | BadUrl \<Rightarrow> Inl InvalidUrl
      | Url pathname sessionId \<Rightarrow>
          if req_method req = ''OPTIONS'' \<and> (pathname = ssePath \<or> pathname = postPath)
          then Inr (Respond (preflight res))
          else if req_method req = ''GET'' \<and> pathname = ''/healthz''
          then Inr (Respond (end_with ''OK'' (writeHead 200 [] res)))
          else if req_method req = ''GET'' \<and> pathname = ''/''
          then Inr (Respond (end_with root_info
                 (writeHead 200 [(''Content-Type'', ''application/json'')] res)))
          else if req_method req = ''GET'' \<and> pathname = ssePath
          then Inr (CallHandleSseRequest res)
          else if req_method req = ''POST'' \<and> pathname = postPath
          then Inr (CallHandlePostMessage res sessionId)
          else Inr (Respond (end_with ''Not Found'' (writeHead 404 [] res))))"

text \<open>The request handler of the richer variant.\<close>

definition router_richer :: "request \<Rightarrow> response \<Rightarrow> error + action" where
  "router_richer req res =
     (case url req of
        NoUrl \<Rightarrow> Inr (Respond (end_with ''Missing URL'' (writeHead 400 [] res)))
      | BadUrl \<Rightarrow> Inl InvalidUrl
      | Url pathname sessionId \<Rightarrow>
          if req_method req = ''OPTIONS'' \<and> (pathname = ssePath \<or> pathname = postPath)
          then Inr (Respond (preflight res))
          else if req_method req = ''GET'' \<and> pathname = ssePath
          then Inr (CallHandleSseRequest res)
          else if req_method req = ''POST'' \<and> pathname = postPath
          then Inr (CallHandlePostMessage res sessionId)
          else Inr (Respond (end_with ''Not Found'' (writeHead 404 [] res))))"

section \<open>Richer variant: loading the widget at startup\<close>







section \<open>The port\<close>

text \<open>
  \<open>Number(s)\<close> on a string, after the grammar \<open>StringNumericLiteral\<close> of ECMAScript. A finite
  result carries the mathematical value of the literal; JavaScript rounds it to the nearest
  double, which changes no integer of magnitude up to \<open>2^53\<close>, and a literal too large for
  a double is an infinity.
\<close>

datatype jsnum = NaN | PosInfinity | NegInfinity | Fin rat

definition digitVal :: "char \<Rightarrow> nat option" where
  "digitVal c = map_of (zip ''0123456789abcdef'' [0 ..< 16]) (toLowerChar c)"

definition isDigitOf :: "nat \<Rightarrow> char \<Rightarrow> bool" where
  "isDigitOf base c = (case digitVal c of None \<Rightarrow> False | Some v \<Rightarrow> v < base)"

definition digitsValue :: "nat \<Rightarrow> string \<Rightarrow> nat" where
  "digitsValue base ds =
     foldl (\<lambda>acc c. acc * base + (case digitVal c of None \<Rightarrow> 0 | Some v \<Rightarrow> v)) 0 ds"

definition to_double :: "rat \<Rightarrow> jsnum" where
  "to_double q =
     (if 2 ^ 1024 - 2 ^ 970 \<le> q then PosInfinity
      else if q \<le> - (2 ^ 1024 - 2 ^ 970) then NegInfinity
      else Fin q)"

definition negate :: "jsnum \<Rightarrow> jsnum" where
  "negate n =
     (case n of
        NaN \<Rightarrow> NaN
      | PosInfinity \<Rightarrow> NegInfinity
      | NegInfinity \<Rightarrow> PosInfinity
      | Fin q \<Rightarrow> Fin (- q))"

text \<open>\<open>0x\<close>, \<open>0o\<close> and \<open>0b\<close> literals; \<open>None\<close> when the string has no such prefix.\<close>

definition nonDecimal :: "string \<Rightarrow> jsnum option" where
  "nonDecimal s =
     (case s of
        c0 # c1 # ds \<Rightarrow>
          (case (if c0 = CHR ''0''
                 then map_of [(CHR ''x'', 16), (CHR ''o'', 8), (CHR ''b'', 2 :: nat)]
                        (toLowerChar c1)
                 else None) of
             None \<Rightarrow> None
           | Some base \<Rightarrow>
               Some (if ds \<noteq> [] \<and> list_all (isDigitOf base) ds
                     then to_double (of_nat (digitsValue base ds))
                     else NaN))
      | _ \<Rightarrow> None)"

text \<open>The exponent part, absent or \<open>e\<close> with a signed integer; \<open>None\<close> when malformed.\<close>

definition exponentPart :: "string \<Rightarrow> int option" where
  "exponentPart s =
     (case s of
        [] \<Rightarrow> Some 0
      | c # r \<Rightarrow>
          if toLowerChar c = CHR ''e'' then
            (let sgn = (case r of d # _ \<Rightarrow> if d = CHR ''-'' then - 1 else 1 | [] \<Rightarrow> 1);
                 ds = (case r of d # r' \<Rightarrow> if d = CHR ''-'' \<or> d = CHR ''+'' then r' else r
                       | [] \<Rightarrow> [])
             in if ds \<noteq> [] \<and> list_all isDigit ds
                then Some (sgn * int (digitsValue 10 ds))
                else None)
          else None)"

definition scale10 :: "nat \<Rightarrow> int \<Rightarrow> rat" where
  "scale10 m e = (if 0 \<le> e then of_nat m * 10 ^ nat e else of_nat m / 10 ^ nat (- e))"

definition unsignedDecimal :: "string \<Rightarrow> jsnum" where
  "unsignedDecimal s =
     (if s = ''Infinity'' then PosInfinity
      else
        (let ip = takeWhile isDigit s; r1 = dropWhile isDigit s in
         case r1 of
           [] \<Rightarrow> if ip = [] then NaN else to_double (of_nat (digitsValue 10 ip))
         | c # r2 \<Rightarrow>
             if c = CHR ''.'' then
               (let fp = takeWhile isDigit r2; r3 = dropWhile isDigit r2 in
                if ip = [] \<and> fp = [] then NaN
                else (case exponentPart r3 of
                        None \<Rightarrow> NaN
                      | Some e \<Rightarrow>
                          to_double (scale10 (digitsValue 10 (ip @ fp)) (e - int (length fp)))))
             else if ip = [] then NaN
             else (case exponentPart r1 of
                     None \<Rightarrow> NaN
                   | Some e \<Rightarrow> to_double (scale10 (digitsValue 10 ip) e))))"

definition strDecimal :: "string \<Rightarrow> jsnum" where
  "strDecimal s =
     (case s of
        [] \<Rightarrow> NaN
      | c # r \<Rightarrow>
          if c = CHR ''+'' then unsignedDecimal r
          else if c = CHR ''-'' then negate (unsignedDecimal r)
          else unsignedDecimal s)"

definition Number :: "string \<Rightarrow> jsnum" where
  "Number s =
     (let t = trim s in
      if t = [] then Fin 0
      else (case nonDecimal t of Some n \<Rightarrow> n | None \<Rightarrow> strDecimal t))"

text \<open>
  \<open>Number(process.env.PORT ?? dflt)\<close> and the \<open>Number.isFinite\<close> test; \<open>env\<close> is \<open>None\<close>
  when \<open>PORT\<close> is unset.
\<close>

definition port_of :: "rat \<Rightarrow> string option \<Rightarrow> rat" where
  "port_of dflt env =
     (let portEnv = (case env of None \<Rightarrow> Fin dflt | Some v \<Rightarrow> Number v)
      in case portEnv of Fin q \<Rightarrow> q | _ \<Rightarrow> dflt)"

definition port_simple :: "string option \<Rightarrow> rat" where
  "port_simple env = port_of 10000 env"

definition port_richer :: "string option \<Rightarrow> rat" where
  "port_richer env = port_of 8000 env"




section \<open>Facts about the string functions and the matcher\<close>

lemma includes_str_sublist: "includes_str t n = sublist n t"
  by (induction t) (auto simp: sublist_Cons_right)

lemma includes_str_iff: "includes_str t n \<longleftrightarrow> (\<exists>pre post. t = pre @ n @ post)"
  by (simp add: includes_str_sublist sublist_def)



lemma matches_lit:
  "matches (lit s) (p, cs) =
     (if prefix s cs then [(if s = [] then p else Some (last s), drop (length s) cs)] else [])"
proof (induction s arbitrary: p cs)
  case Nil
  then show ?case by simp
next
  case (Cons a s)
  show ?case
  proof (cases cs)
    case Nil
    then show ?thesis by simp
  next
    case (Cons c cs')
    with Cons.IH show ?thesis by auto
  qed
qed

text \<open>\<open>search\<close> succeeds exactly when the pattern matches at some position.\<close>

lemma search_Some_iff:
  "search r p cs \<noteq> None \<longleftrightarrow>
     (\<exists>pre post. cs = pre @ post \<and>
        matches r (if pre = [] then p else Some (last pre), post) \<noteq> [])"
proof (induction cs arbitrary: p)
  case Nil
  then show ?case by (auto split: list.splits)
next
  case (Cons c cs)
  have "search r p (c # cs) \<noteq> None \<longleftrightarrow>
          matches r (p, c # cs) \<noteq> [] \<or> search r (Some c) cs \<noteq> None"
    by (auto split: list.splits)
  also have "\<dots> \<longleftrightarrow> matches r (p, c # cs) \<noteq> [] \<or>
          (\<exists>pre post. cs = pre @ post \<and>
             matches r (if pre = [] then Some c else Some (last pre), post) \<noteq> [])"
    by (simp only: Cons.IH)
  also have "\<dots> \<longleftrightarrow> (\<exists>pre post. c # cs = pre @ post \<and>
          matches r (if pre = [] then p else Some (last pre), post) \<noteq> [])"
    (is "?L \<longleftrightarrow> ?R")
  proof
    assume ?L
    then show ?R
    proof
      assume "matches r (p, c # cs) \<noteq> []"
      then have "c # cs = [] @ (c # cs) \<and>
          matches r (if [] = ([] :: string) then p else Some (last []), c # cs) \<noteq> []"
        by simp
      then show ?R by blast
    next
      assume "\<exists>pre post. cs = pre @ post \<and>
          matches r (if pre = [] then Some c else Some (last pre), post) \<noteq> []"
      then obtain pre post where
        "cs = pre @ post"
        "matches r (if pre = [] then Some c else Some (last pre), post) \<noteq> []"
        by blast
      then have "c # cs = (c # pre) @ post \<and>
          matches r (if c # pre = [] then p else Some (last (c # pre)), post) \<noteq> []"
        by auto
      then show ?R by blast
    qed
  next
    assume ?R
    then obtain pre post where *:
      "c # cs = pre @ post"
      "matches r (if pre = [] then p else Some (last pre), post) \<noteq> []"
      by blast
    show ?L
    proof (cases pre)
      case Nil
      with * show ?thesis by simp
    next
      case (Cons a pre')
      with * have "cs = pre' @ post"
        "matches r (if pre' = [] then Some c else Some (last pre'), post) \<noteq> []"
        by auto
      then show ?thesis by blast
    qed
  qed
  finally show ?case .
qed

lemma matches_Star_Cls_Nil: "matches (Star (Cls P)) (p, []) = [(p, [])]"
  by simp

lemma matches_Star_Cls_Cons:
  "matches (Star (Cls P)) (p, c # cs) =
     (if P c then matches (Star (Cls P)) (Some c, cs) @ [(p, c # cs)] else [(p, c # cs)])"
  by simp

declare matches.simps(7) [simp del]


lemma Star_Cls_sound:
  "(q, rest) \<in> set (matches (Star (Cls P)) (p, cs)) \<Longrightarrow> \<exists>ws. cs = ws @ rest \<and> list_all P ws"
proof (induction cs arbitrary: p)
  case Nil
  then show ?case by (simp only: matches_Star_Cls_Nil) simp
next
  case (Cons c cs)
  show ?case
  proof (cases "P c \<and> (q, rest) \<in> set (matches (Star (Cls P)) (Some c, cs))")
    case True
    then have m: "(q, rest) \<in> set (matches (Star (Cls P)) (Some c, cs))" by simp
    from Cons.IH [OF m] obtain ws where "cs = ws @ rest" "list_all P ws" by blast
    with True have "c # cs = (c # ws) @ rest \<and> list_all P (c # ws)" by simp
    then show ?thesis by blast
  next
    case False
    with Cons.prems have "(q, rest) = (p, c # cs)"
      by (simp only: matches_Star_Cls_Cons split: if_splits) auto
    then have "c # cs = [] @ rest \<and> list_all P []" by simp
    then show ?thesis by blast
  qed
qed


lemma Plus_Cls_sound:
  assumes "(q, rest) \<in> set (matches (Plus (Cls P)) (p, cs))"
  shows "\<exists>ds. cs = ds @ rest \<and> ds \<noteq> [] \<and> list_all P ds"
proof (cases cs)
  case Nil
  with assms show ?thesis by (simp add: Plus_def)
next
  case (Cons c cs')
  with assms have "P c" and "(q, rest) \<in> set (matches (Star (Cls P)) (Some c, cs'))"
    by (auto simp: Plus_def split: if_splits)
  from Star_Cls_sound [OF this(2)] obtain ws where "cs' = ws @ rest" "list_all P ws"
    by blast
  with \<open>P c\<close> Cons have "cs = (c # ws) @ rest \<and> c # ws \<noteq> [] \<and> list_all P (c # ws)"
    by simp
  then show ?thesis by blast
qed


lemma matches_litI:
  "matches (litI w) (p, cs) =
     (if length w \<le> length cs \<and> map toUpperChar (take (length w) cs) = map toUpperChar w
      then [(if w = [] then p else Some (last (take (length w) cs)), drop (length w) cs)]
      else [])"
proof (induction w arbitrary: p cs)
  case Nil
  then show ?case by simp
next
  case (Cons a w)
  show ?case
  proof (cases cs)
    case Nil
    then show ?thesis by simp
  next
    case (Cons c cs')
    with Cons.IH show ?thesis by (auto simp: take_Suc_conv_app_nth)
  qed
qed




section \<open>Properties of the intent classifier\<close>


lemma matches_lit_done:
  "matches (lit ''done'') (p, cs) =
     (if prefix ''done'' cs then [(Some CHR ''e'', drop 4 cs)] else [])"
  by (simp only: matches_lit) (simp add: numeral_eq_Suc)

lemma matches_done_rx:
  "matches done_rx (p, cs) =
     (if \<not> isWordBefore p \<and> prefix ''done'' cs \<and> \<not> isWordAfter (drop 4 cs)
      then [(Some CHR ''e'', drop 4 cs)] else [])"
proof (cases "prefix ''done'' cs")
  case True
  then obtain rest where cs: "cs = ''done'' @ rest"
    by (auto simp: prefix_def)
  have after: "isWordAfter cs"
    by (simp add: cs isWordAfter_def isWordChar_def)
  have e: "isWordBefore (Some CHR ''e'')"
    by (simp add: isWordBefore_def isWordChar_def)
  show ?thesis
    using True after e
    by (simp add: done_rx_def matches_lit_done del: lit.simps)
next
  case False
  then show ?thesis
    by (simp add: done_rx_def matches_lit_done del: lit.simps)
qed

lemma done_rx_test_iff:
  "regex_test done_rx t \<longleftrightarrow>
     (\<exists>pre post. t = pre @ ''done'' @ post \<and>
        (pre = [] \<or> \<not> isWordChar (last pre)) \<and> (post = [] \<or> \<not> isWordChar (hd post)))"
  (is "?L \<longleftrightarrow> ?R")
proof
  assume ?L
  then obtain pre rest where t: "t = pre @ rest"
    and m: "matches done_rx (if pre = [] then None else Some (last pre), rest) \<noteq> []"
    unfolding regex_test_def regex_match_def search_Some_iff by blast
  from m have b: "\<not> isWordBefore (if pre = [] then None else Some (last pre))"
    and p: "prefix ''done'' rest" and a: "\<not> isWordAfter (drop 4 rest)"
    by (auto simp: matches_done_rx split: if_splits)
  from p obtain post where rest: "rest = ''done'' @ post"
    by (auto simp: prefix_def)
  from b have "pre = [] \<or> \<not> isWordChar (last pre)"
    by (auto simp: isWordBefore_def split: if_splits)
  moreover from a rest have "post = [] \<or> \<not> isWordChar (hd post)"
    by (cases post) (auto simp: isWordAfter_def)
  ultimately show ?R using t rest by blast
next
  assume ?R
  then obtain pre post where t: "t = pre @ ''done'' @ post"
    and b: "pre = [] \<or> \<not> isWordChar (last pre)"
    and a: "post = [] \<or> \<not> isWordChar (hd post)"
    by blast
  from b have "\<not> isWordBefore (if pre = [] then None else Some (last pre))"
    by (auto simp: isWordBefore_def)
  moreover from a have "\<not> isWordAfter (drop 4 (''done'' @ post))"
    by (cases post) (auto simp: isWordAfter_def)
  ultimately have "matches done_rx (if pre = [] then None else Some (last pre), ''done'' @ post) \<noteq> []"
    by (simp only: matches_done_rx) simp
  with t have "\<exists>pre post. t = pre @ post \<and>
      matches done_rx (if pre = [] then None else Some (last pre), post) \<noteq> []"
    by blast
  then show ?L
    unfolding regex_test_def regex_match_def search_Some_iff .
qed

text \<open>
  C9. The completion signal of the classifier holds exactly when \<open>done\<close> occurs in the
  text between two word boundaries (the character before it, if any, and the character
  after it, if any, are not word characters), or one of the other completion phrases
  occurs anywhere in the text as a substring. So \<open>abandoned\<close>, which has \<open>done\<close> only
  inside a longer word, gives no completion signal and is classified \<open>S1\<close>.
\<close>

theorem doneSignal_whole_word:
  "(doneSignal t \<longleftrightarrow>
      (\<exists>pre post. t = pre @ ''done'' @ post \<and>
         (pre = [] \<or> \<not> isWordChar (last pre)) \<and> (post = [] \<or> \<not> isWordChar (hd post))) \<or>
      (\<exists>n \<in> set [''i did'', ''i wrote'', ''i opened'', ''i sent'', ''i renamed'', ''finished'',
                  ''completed'']. \<exists>pre post. t = pre @ n @ post)) \<and>
   \<not> doneSignal ''abandoned'' \<and> inferState ''abandoned'' = S1"
proof (intro conjI)
  show "doneSignal t \<longleftrightarrow>
      (\<exists>pre post. t = pre @ ''done'' @ post \<and>
         (pre = [] \<or> \<not> isWordChar (last pre)) \<and> (post = [] \<or> \<not> isWordChar (hd post))) \<or>
      (\<exists>n \<in> set [''i did'', ''i wrote'', ''i opened'', ''i sent'', ''i renamed'', ''finished'',
                  ''completed'']. \<exists>pre post. t = pre @ n @ post)"
    unfolding doneSignal_def done_rx_test_iff list_ex_iff includes_str_iff ..
  show "\<not> doneSignal ''abandoned''"
    by code_simp
  show "inferState ''abandoned'' = S1"
    by code_simp
qed

theorem doneSignal_whole_word_witness:
  "(''all '' = [] \<or> \<not> isWordChar (last ''all '')) \<and>
   ('' now'' = [] \<or> \<not> isWordChar (hd '' now'')) \<and>
   doneSignal ''all done now'' \<and> doneSignal ''unfinished''"
proof -
  have b: "''all '' = [] \<or> \<not> isWordChar (last ''all '')"
    by (simp add: isWordChar_def)
  have a: "'' now'' = [] \<or> \<not> isWordChar (hd '' now'')"
    by (simp add: isWordChar_def)
  have s: "''all done now'' = ''all '' @ ''done'' @ '' now''"
    by simp
  have f: "\<exists>n \<in> set [''i did'', ''i wrote'', ''i opened'', ''i sent'', ''i renamed'', ''finished'',
      ''completed'']. \<exists>pre post. ''unfinished'' = pre @ n @ post"
  proof (intro bexI exI)
    show "''unfinished'' = ''un'' @ ''finished'' @ []" by simp
    show "''finished'' \<in> set [''i did'', ''i wrote'', ''i opened'', ''i sent'', ''i renamed'',
      ''finished'', ''completed'']" by simp
  qed
  have "doneSignal ''all done now''"
    using doneSignal_whole_word [of "''all done now''"] a b s by blast
  moreover have "doneSignal ''unfinished''"
    using doneSignal_whole_word [of "''unfinished''"] f by blast
  ultimately show ?thesis using a b by blast
qed













section \<open>Properties of the composer\<close>

lemma stem_opt_sound:
  assumes "(q, rest) \<in> set (matches (Seq (litI w) (Opt (litI v))) (p, cs))"
  shows "\<exists>u. cs = u @ rest \<and>
           (map toUpperChar u = map toUpperChar w \<or> map toUpperChar u = map toUpperChar (w @ v))"
proof -
  from assms have w: "length w \<le> length cs" "map toUpperChar (take (length w) cs) = map toUpperChar w"
    and r: "(q, rest) \<in> set (matches (Opt (litI v))
              (if w = [] then p else Some (last (take (length w) cs)), drop (length w) cs))"
    by (auto simp: matches_litI split: if_splits)
  let ?cs' = "drop (length w) cs"
  from r consider
      (s) "length v \<le> length ?cs'" "map toUpperChar (take (length v) ?cs') = map toUpperChar v"
          "rest = drop (length v) ?cs'"
    | (e) "rest = ?cs'"
    by (auto simp: Opt_def matches_litI split: if_splits)
  then show ?thesis
  proof cases
    case s
    have "?cs' = take (length v) ?cs' @ rest"
      unfolding s(3) by (simp only: append_take_drop_id)
    moreover have "cs = take (length w) cs @ ?cs'"
      by (simp only: append_take_drop_id)
    ultimately have "cs = (take (length w) cs @ take (length v) ?cs') @ rest"
      by (metis append_assoc)
    moreover have "map toUpperChar (take (length w) cs @ take (length v) ?cs') = map toUpperChar (w @ v)"
      using w(2) s(2) by simp
    ultimately show ?thesis by blast
  next
    case e
    have "cs = take (length w) cs @ rest"
      using e by simp
    with w(2) show ?thesis by blast
  qed
qed


lemma unit_rx_sound:
  assumes "(q, rest) \<in> set (matches unit_rx (p, cs))"
  shows "\<exists>u. cs = u @ rest \<and> list_ex (\<lambda>w. map toUpperChar u = map toUpperChar w) unit_words"
proof -
  from assms obtain w where
    w: "w \<in> {''minute'', ''min'', ''hour'', ''hr''}"
    and m: "(q, rest) \<in> set (matches (Seq (litI w) (Opt (litI ''s''))) (p, cs))"
    unfolding unit_rx_def by (auto simp del: litI.simps matches.simps(5))
  from stem_opt_sound [OF m] obtain u where u: "cs = u @ rest"
    "map toUpperChar u = map toUpperChar w \<or> map toUpperChar u = map toUpperChar (w @ ''s'')"
    by blast
  from w u(2) have "list_ex (\<lambda>w. map toUpperChar u = map toUpperChar w) unit_words"
    unfolding unit_words_def by (elim insertE emptyE disjE) simp_all
  with u(1) show ?thesis by blast
qed



lemma timebox_rx_sound:
  assumes "(q, rest) \<in> set (matches timebox_rx (p, cs))"
  shows "\<exists>m. cs = m @ rest \<and> is_duration m"
proof -
  from assms obtain q1 r1 q2 r2 where
    d: "(q1, r1) \<in> set (matches (Plus (Cls isDigit)) (p, cs))"
    and w: "(q2, r2) \<in> set (matches (Star (Cls isSpace)) (q1, r1))"
    and u: "(q, rest) \<in> set (matches unit_rx (q2, r2))"
    unfolding timebox_rx_def by auto
  from Plus_Cls_sound [OF d] obtain ds where ds: "cs = ds @ r1" "ds \<noteq> []" "list_all isDigit ds"
    by blast
  from Star_Cls_sound [OF w] obtain ws where ws: "r1 = ws @ r2" "list_all isSpace ws"
    by blast
  from unit_rx_sound [OF u] obtain un where un: "r2 = un @ rest"
    "list_ex (\<lambda>w. map toUpperChar un = map toUpperChar w) unit_words"
    by blast
  have "cs = (ds @ ws @ un) @ rest"
    using ds(1) ws(1) un(1) by simp
  moreover have "is_duration (ds @ ws @ un)"
    unfolding is_duration_def using ds(2,3) ws(2) un(2) by blast
  ultimately show ?thesis by blast
qed


lemma search_Some_sound:
  "search r p cs = Some m \<Longrightarrow>
     \<exists>pre post q rest. cs = pre @ post \<and>
        (q, rest) \<in> set (matches r (if pre = [] then p else Some (last pre), post)) \<and>
        m = take (length post - length rest) post"
proof (induction cs arbitrary: p)
  case Nil
  then obtain q rest where "(q, rest) \<in> set (matches r (p, []))" "m = []"
    by (auto split: list.splits)
  then have "[] = [] @ ([] :: string) \<and>
      (q, rest) \<in> set (matches r (if [] = ([] :: string) then p else Some (last []), [])) \<and>
      m = take (length ([] :: string) - length rest) []"
    by simp
  then show ?case by blast
next
  case (Cons c cs)
  show ?case
  proof (cases "matches r (p, c # cs)")
    case Nil
    with Cons.prems have "search r (Some c) cs = Some m" by simp
    from Cons.IH [OF this] obtain pre post q rest where *: "cs = pre @ post"
      "(q, rest) \<in> set (matches r (if pre = [] then Some c else Some (last pre), post))"
      "m = take (length post - length rest) post"
      by blast
    then have "c # cs = (c # pre) @ post \<and>
      (q, rest) \<in> set (matches r (if c # pre = [] then p else Some (last (c # pre)), post)) \<and>
      m = take (length post - length rest) post"
      by auto
    then show ?thesis by blast
  next
    case (Cons x xs)
    obtain q rest where x: "x = (q, rest)" by (cases x)
    with Cons Cons.prems have "m = take (length (c # cs) - length rest) (c # cs)"
      by simp
    moreover from Cons x have "(q, rest) \<in> set (matches r (p, c # cs))"
      by simp
    ultimately have "c # cs = [] @ (c # cs) \<and>
      (q, rest) \<in> set (matches r (if [] = ([] :: string) then p else Some (last []), c # cs)) \<and>
      m = take (length (c # cs) - length rest) (c # cs)"
      by simp
    then show ?thesis by blast
  qed
qed

lemma timebox_match_Some:
  assumes "regex_match timebox_rx sit = Some m"
  shows "\<exists>pre post. sit = pre @ m @ post \<and> is_duration m"
proof -
  from search_Some_sound [OF assms [unfolded regex_match_def]]
  obtain pre post q rest where sit: "sit = pre @ post"
    and r: "(q, rest) \<in> set (matches timebox_rx (if pre = [] then None else Some (last pre), post))"
    and m: "m = take (length post - length rest) post"
    by blast
  from timebox_rx_sound [OF r] obtain m' where m': "post = m' @ rest" "is_duration m'"
    by blast
  from m m'(1) have "m = m'" by simp
  with sit m' show ?thesis by auto
qed



lemma lines_nonempty:
  "heading tb \<noteq> []" "step_line tb \<noteq> []" "finishLine \<noteq> []"
  by (simp_all add: heading_def step_line_def finishLine_def)

lemma details_of_lines:
  "details_of a =
     join [CHR 0x0A]
       ([heading (timebox_of (situation a)),
         step_line (timebox_of (situation a)),
         ''Constraints: '' @ resolve_constraints (constraints a)] @
        (if resolve_desired (desired_outcome a) = [] then []
         else [''Desired outcome: '' @ resolve_desired (desired_outcome a)]) @
        [finishLine])"
  by (simp add: details_of_def detailsLines_def Let_def truthy_def lines_nonempty)













lemma startsWithI_iff:
  "startsWithI r w \<longleftrightarrow>
     length w \<le> length r \<and> map toUpperChar (take (length w) r) = map toUpperChar w"
proof
  assume "startsWithI r w"
  then obtain zs where z: "map toUpperChar r = map toUpperChar w @ zs"
    by (auto simp: startsWithI_def prefix_def)
  then have "length (map toUpperChar r) = length (map toUpperChar w @ zs)"
    by simp
  then have l: "length w \<le> length r" by simp
  from z have "take (length w) (map toUpperChar r) = map toUpperChar w"
    by simp
  then have "map toUpperChar (take (length w) r) = map toUpperChar w"
    by (simp add: take_map)
  with l show "length w \<le> length r \<and> map toUpperChar (take (length w) r) = map toUpperChar w"
    by simp
next
  assume a: "length w \<le> length r \<and> map toUpperChar (take (length w) r) = map toUpperChar w"
  then have "map toUpperChar w = take (length w) (map toUpperChar r)"
    by (simp add: take_map)
  then show "startsWithI r w"
    unfolding startsWithI_def by (metis take_is_prefix)
qed


lemma startsWithI_length: "startsWithI r w \<Longrightarrow> length w \<le> length r"
  by (simp add: startsWithI_iff)


lemma map_snd_Seq:
  "map snd (matches (Seq a b) x) = concat (map (\<lambda>y. map snd (matches b y)) (matches a x))"
  by (simp add: map_concat comp_def)



lemma head_map_snd:
  "(case xs of [] \<Rightarrow> None | (_, rest) # _ \<Rightarrow> Some (f rest)) =
     map_option f (case map snd xs of [] \<Rightarrow> None | rest # _ \<Rightarrow> Some rest)"
  by (cases xs) auto




















lemma callTool_next_best_step:
  "callTool ''next_best_step'' arguments =
     (case nextBestStepParser (case arguments of None \<Rightarrow> Map.empty | Some m \<Rightarrow> m) of
        Inl e \<Rightarrow> Inl e
      | Inr args \<Rightarrow>
          Inr \<lparr>content_text = details_of args,
               sc_message = ''Next Best Step (one action)'',
               sc_accentColor = ''#2d6cdf'',
               sc_details = details_of args,
               sc_fromTool = ''next_best_step'',
               sc_inputs = Some
                 \<lparr>in_situation = situation args,
                  in_constraints = (case constraints args of None \<Rightarrow> [] | Some c \<Rightarrow> c),
                  in_desired_outcome =
                    (case desired_outcome args of None \<Rightarrow> [] | Some d \<Rightarrow> d)\<rparr>,
               meta_invocation = ''next_best_step''\<rparr>)"
  by (simp add: callTool_def Let_def)

lemma nextBestStepParser_Inr:
  assumes "nextBestStepParser m = Inr args"
  shows "m ''situation'' = Some (Str (situation args)) \<and> situation args \<noteq> [] \<and>
         (case constraints args of None \<Rightarrow> m ''constraints'' = None
          | Some c \<Rightarrow> m ''constraints'' = Some (Str c)) \<and>
         (case desired_outcome args of None \<Rightarrow> m ''desired_outcome'' = None
          | Some d \<Rightarrow> m ''desired_outcome'' = Some (Str d))"
  using assms
  by (auto simp: nextBestStepParser_def optional_string_def
      split: option.splits jsval.splits sum.splits if_splits)

lemma details_of_constraints_line:
  "sublist (''Constraints: '' @ resolve_constraints (constraints a)) (details_of a)"
proof -
  have "\<exists>ps ss. details_of a = ps @ (''Constraints: '' @ resolve_constraints (constraints a)) @ ss"
    by (rule exI [of _ "heading (timebox_of (situation a)) @ [CHR 0x0A] @
          step_line (timebox_of (situation a)) @ [CHR 0x0A]"])
      (simp add: details_of_lines)
  then show ?thesis by (simp only: sublist_def)
qed

text \<open>
  C10. After a successful \<open>next_best_step\<close> call, \<open>structuredContent.inputs\<close> holds the
  raw arguments: \<open>situation\<close> as given, \<open>constraints\<close> and \<open>desired_outcome\<close> as given or
  empty when absent. In particular the raw constraints are echoed untrimmed even when they
  are blank, in which case the rendered text carries the default constraints sentence.
\<close>

theorem inputs_echo_raw:
  "callTool ''next_best_step'' arguments = Inr r \<longrightarrow>
     (\<exists>m s c d. arguments = Some m \<and> sc_inputs r =
          Some \<lparr>in_situation = s, in_constraints = c, in_desired_outcome = d\<rparr> \<and>
        m ''situation'' = Some (Str s) \<and>
        (m ''constraints'' = None \<and> c = [] \<or> m ''constraints'' = Some (Str c)) \<and>
        (m ''desired_outcome'' = None \<and> d = [] \<or> m ''desired_outcome'' = Some (Str d)) \<and>
        (trim c = [] \<longrightarrow>
           sublist (''Constraints: '' @ default_constraints) (sc_details r)))"
proof
  assume ok: "callTool ''next_best_step'' arguments = Inr r"
  let ?m = "case arguments of None \<Rightarrow> Map.empty | Some m \<Rightarrow> m"
  from ok obtain args where p: "nextBestStepParser ?m = Inr args"
    and r: "r = \<lparr>content_text = details_of args,
               sc_message = ''Next Best Step (one action)'',
               sc_accentColor = ''#2d6cdf'',
               sc_details = details_of args,
               sc_fromTool = ''next_best_step'',
               sc_inputs = Some
                 \<lparr>in_situation = situation args,
                  in_constraints = (case constraints args of None \<Rightarrow> [] | Some c \<Rightarrow> c),
                  in_desired_outcome =
                    (case desired_outcome args of None \<Rightarrow> [] | Some d \<Rightarrow> d)\<rparr>,
               meta_invocation = ''next_best_step''\<rparr>"
    by (auto simp: callTool_next_best_step split: sum.splits)
  note f = nextBestStepParser_Inr [OF p]
  from f have "arguments \<noteq> None"
    by (cases arguments) auto
  then obtain m where m: "arguments = Some m" by blast
  let ?c = "case constraints args of None \<Rightarrow> [] | Some c \<Rightarrow> c"
  let ?d = "case desired_outcome args of None \<Rightarrow> [] | Some d \<Rightarrow> d"
  have 1: "sc_inputs r = Some \<lparr>in_situation = situation args, in_constraints = ?c,
      in_desired_outcome = ?d\<rparr>"
    by (simp add: r)
  have 2: "m ''situation'' = Some (Str (situation args))"
    using f m by simp
  have 3: "m ''constraints'' = None \<and> ?c = [] \<or> m ''constraints'' = Some (Str ?c)"
    using f m by (auto split: option.splits)
  have 4: "m ''desired_outcome'' = None \<and> ?d = [] \<or> m ''desired_outcome'' = Some (Str ?d)"
    using f m by (auto split: option.splits)
  have 5: "trim ?c = [] \<longrightarrow> sublist (''Constraints: '' @ default_constraints) (sc_details r)"
  proof
    assume "trim ?c = []"
    then have "resolve_constraints (constraints args) = default_constraints"
      by (simp add: resolve_constraints_def)
    with details_of_constraints_line [of args] show
      "sublist (''Constraints: '' @ default_constraints) (sc_details r)"
      by (simp add: r)
  qed
  from m 1 2 3 4 5 show "\<exists>m s c d. arguments = Some m \<and> sc_inputs r =
          Some \<lparr>in_situation = s, in_constraints = c, in_desired_outcome = d\<rparr> \<and>
        m ''situation'' = Some (Str s) \<and>
        (m ''constraints'' = None \<and> c = [] \<or> m ''constraints'' = Some (Str c)) \<and>
        (m ''desired_outcome'' = None \<and> d = [] \<or> m ''desired_outcome'' = Some (Str d)) \<and>
        (trim c = [] \<longrightarrow>
           sublist (''Constraints: '' @ default_constraints) (sc_details r))"
    by blast
qed


theorem inputs_echo_raw_witness:
  "\<exists>r. callTool ''next_best_step''
          (Some [''situation'' \<mapsto> Str ''I have 2 hours'', ''constraints'' \<mapsto> Str ''   '']) = Inr r \<and>
        sc_inputs r = Some \<lparr>in_situation = ''I have 2 hours'', in_constraints = ''   '',
          in_desired_outcome = []\<rparr> \<and>
        sublist (''Constraints: '' @ default_constraints) (sc_details r)"
proof -
  let ?m = "[''situation'' \<mapsto> Str ''I have 2 hours'', ''constraints'' \<mapsto> Str ''   '']"
  have "nextBestStepParser ?m =
      Inr \<lparr>situation = ''I have 2 hours'', constraints = Some ''   '', desired_outcome = None\<rparr>"
    by (simp add: nextBestStepParser_def optional_string_def)
  then obtain r where ok: "callTool ''next_best_step'' (Some ?m) = Inr r"
    by (simp add: callTool_next_best_step)
  from inputs_echo_raw [of "Some ?m" r] ok obtain m s c d where
    m: "Some ?m = Some m"
    and i: "sc_inputs r = Some \<lparr>in_situation = s, in_constraints = c, in_desired_outcome = d\<rparr>"
    and s: "m ''situation'' = Some (Str s)"
    and c: "m ''constraints'' = None \<and> c = [] \<or> m ''constraints'' = Some (Str c)"
    and d: "m ''desired_outcome'' = None \<and> d = [] \<or> m ''desired_outcome'' = Some (Str d)"
    and t: "trim c = [] \<longrightarrow> sublist (''Constraints: '' @ default_constraints) (sc_details r)"
    by blast
  from m have m': "m = ?m" by simp
  from s have s': "s = ''I have 2 hours''" by (simp add: m')
  from c have c': "c = ''   ''" by (simp add: m')
  from d have d': "d = []" by (simp add: m')
  have "trim ''   '' = []" by (simp add: trim_def isSpace_def)
  with t c' have "sublist (''Constraints: '' @ default_constraints) (sc_details r)" by simp
  with ok i s' c' d' show ?thesis by blast
qed

section \<open>Properties of the message endpoint and the routers\<close>

text \<open>
  C3, as the code has it, for both variants. A \<open>POST\<close> whose \<open>sessionId\<close> parameter is absent
  or empty is answered 400 with no lookup in the session map, whatever the map holds. A
  non-empty \<open>sessionId\<close> that is not a key of the map is answered 404. Otherwise the request
  goes to the transport of that session; when the transport throws, the answer is 500 if
  no response had been started, and the response the transport left otherwise.
\<close>

theorem handlePostMessage_cases:
  "(sessionId = None \<or> sessionId = Some [] \<longrightarrow>
      status (fst (handlePostMessage s h sessionId res)) = Some 400 \<and>
      snd (handlePostMessage s h sessionId res) = [] \<and>
      handlePostMessage s h sessionId res = handlePostMessage s' h' sessionId res) \<and>
   (sessionId = Some sid \<and> sid \<noteq> [] \<and> sessions s sid = None \<longrightarrow>
      status (fst (handlePostMessage s h sessionId res)) = Some 404 \<and>
      snd (handlePostMessage s h sessionId res) = [Lookup sid]) \<and>
   (sessionId = Some sid \<and> sid \<noteq> [] \<and> sessions s sid = Some session \<longrightarrow>
      snd (handlePostMessage s h sessionId res) = [Lookup sid, Delegate (transport session)] \<and>
      (let res2 = setHeader ''Access-Control-Allow-Headers'' ''content-type''
                    (setHeader ''Access-Control-Allow-Origin'' ''*'' res)
       in case h (transport session) res2 of
            Returned r \<Rightarrow> fst (handlePostMessage s h sessionId res) = r
          | Threw r \<Rightarrow>
              (if headersSent r then fst (handlePostMessage s h sessionId res) = r
               else fst (handlePostMessage s h sessionId res) =
                      end_with ''Failed to process message'' (writeHead 500 [] r) \<and>
                    status (fst (handlePostMessage s h sessionId res)) = Some 500)))"
proof (intro conjI impI)
  assume "sessionId = None \<or> sessionId = Some []"
  then show "status (fst (handlePostMessage s h sessionId res)) = Some 400"
    and "snd (handlePostMessage s h sessionId res) = []"
    and "handlePostMessage s h sessionId res = handlePostMessage s' h' sessionId res"
    by (auto simp: handlePostMessage_def Let_def end_with_def writeHead_def)
next
  assume "sessionId = Some sid \<and> sid \<noteq> [] \<and> sessions s sid = None"
  then show "status (fst (handlePostMessage s h sessionId res)) = Some 404"
    and "snd (handlePostMessage s h sessionId res) = [Lookup sid]"
    by (auto simp: handlePostMessage_def Let_def end_with_def writeHead_def)
next
  assume a: "sessionId = Some sid \<and> sid \<noteq> [] \<and> sessions s sid = Some session"
  then show "snd (handlePostMessage s h sessionId res) = [Lookup sid, Delegate (transport session)]"
    by (auto simp: handlePostMessage_def Let_def split: outcome.splits)
  from a show "let res2 = setHeader ''Access-Control-Allow-Headers'' ''content-type''
                    (setHeader ''Access-Control-Allow-Origin'' ''*'' res)
       in case h (transport session) res2 of
            Returned r \<Rightarrow> fst (handlePostMessage s h sessionId res) = r
          | Threw r \<Rightarrow>
              (if headersSent r then fst (handlePostMessage s h sessionId res) = r
               else fst (handlePostMessage s h sessionId res) =
                      end_with ''Failed to process message'' (writeHead 500 [] r) \<and>
                    status (fst (handlePostMessage s h sessionId res)) = Some 500)"
    by (auto simp: handlePostMessage_def Let_def end_with_def writeHead_def split: outcome.splits)
qed

theorem handlePostMessage_cases_witness:
  "status (fst (handlePostMessage init_state (\<lambda>tr r. Threw r) None fresh_response)) = Some 400 \<and>
   status (fst (handlePostMessage init_state (\<lambda>tr r. Threw r) (Some ''nope'') fresh_response)) =
     Some 404 \<and>
   status (fst (handlePostMessage
      (init_state\<lparr>sessions := [''abc'' \<mapsto> \<lparr>server = 0, transport = 1\<rparr>]\<rparr>)
      (\<lambda>tr r. Threw r) (Some ''abc'') fresh_response)) = Some 500 \<and>
   status (fst (handlePostMessage
      (init_state\<lparr>sessions := [''abc'' \<mapsto> \<lparr>server = 0, transport = 1\<rparr>]\<rparr>)
      (\<lambda>tr r. Threw (writeHead 202 [] r)) (Some ''abc'') fresh_response)) = Some 202"
proof -
  let ?s = "init_state\<lparr>sessions := [''abc'' \<mapsto> \<lparr>server = 0, transport = 1\<rparr>]\<rparr>"
  have n: "sessions init_state ''nope'' = None"
    by (simp add: init_state_def)
  have k: "sessions ?s ''abc'' = Some \<lparr>server = 0, transport = 1\<rparr>"
    by simp
  have 1: "status (fst (handlePostMessage init_state (\<lambda>tr r. Threw r) None fresh_response)) =
      Some 400"
    using handlePostMessage_cases [of None init_state "\<lambda>tr r. Threw r" fresh_response]
    by simp
  have 2: "status (fst (handlePostMessage init_state (\<lambda>tr r. Threw r) (Some ''nope'')
      fresh_response)) = Some 404"
    using handlePostMessage_cases
      [of "Some ''nope''" init_state "\<lambda>tr r. Threw r" fresh_response _ _ "''nope''"] n
    by simp
  have 3: "status (fst (handlePostMessage ?s (\<lambda>tr r. Threw r) (Some ''abc'') fresh_response)) =
      Some 500"
    using handlePostMessage_cases
      [of "Some ''abc''" ?s "\<lambda>tr r. Threw r" fresh_response _ _ "''abc''"
        "\<lparr>server = 0, transport = 1\<rparr>"] k
    by (simp add: Let_def headersSent_def setHeader_def end_with_def writeHead_def
        fresh_response_def)
  have 4: "status (fst (handlePostMessage ?s (\<lambda>tr r. Threw (writeHead 202 [] r)) (Some ''abc'')
      fresh_response)) = Some 202"
    using handlePostMessage_cases
      [of "Some ''abc''" ?s "\<lambda>tr r. Threw (writeHead 202 [] r)" fresh_response _ _ "''abc''"
        "\<lparr>server = 0, transport = 1\<rparr>"] k
    by (simp add: Let_def headersSent_def setHeader_def end_with_def writeHead_def
        fresh_response_def)
  from 1 2 3 4 show ?thesis by blast
qed

text \<open>
  C3 as stated answers 404 whenever \<open>sessionId\<close> is present but not a key of the session
  map. For \<open>POST /mcp/messages?sessionId=\<close> the parameter is present and empty, the map has
  no such key, and the answer is 400.
\<close>

theorem empty_sessionId_counterexample:
  "sessions init_state [] = None \<and>
   status (fst (handlePostMessage init_state (\<lambda>tr r. Returned r) (Some []) fresh_response)) =
     Some 400"
  by (simp add: handlePostMessage_def init_state_def Let_def end_with_def writeHead_def)

text \<open>
  C7, as the code has it. The simple variant answers \<open>GET /healthz\<close> with 200 and the body
  \<open>OK\<close>. The richer variant has no health route: there the request falls through to 404
  \<open>Not Found\<close>.
\<close>

theorem healthz_by_variant:
  "router_simple \<lparr>req_method = ''GET'', url = Url ''/healthz'' q\<rparr> fresh_response =
     Inr (Respond \<lparr>status = Some 200, headers = Map.empty, body = ''OK'', ended = True\<rparr>) \<and>
   router_richer \<lparr>req_method = ''GET'', url = Url ''/healthz'' q\<rparr> fresh_response =
     Inr (Respond \<lparr>status = Some 404, headers = Map.empty, body = ''Not Found'', ended = True\<rparr>)"
  by (simp add: router_simple_def router_richer_def ssePath_def postPath_def
      fresh_response_def end_with_def writeHead_def)

text \<open>
  C7 as stated has both variants answer \<open>GET /healthz\<close> with 200 \<open>OK\<close>; the richer variant
  answers 404 \<open>Not Found\<close>.
\<close>

theorem healthz_richer_counterexample:
  "router_richer \<lparr>req_method = ''GET'', url = Url ''/healthz'' None\<rparr> fresh_response =
     Inr (Respond \<lparr>status = Some 404, headers = Map.empty, body = ''Not Found'', ended = True\<rparr>)"
  by (simp add: router_richer_def ssePath_def postPath_def
      fresh_response_def end_with_def writeHead_def)

section \<open>Properties of the session directory\<close>

text \<open>
  Once the SDK has wrapped the callback of \<open>handleSseRequest\<close>, a close never returns: the
  callback calls \<open>server.close()\<close>, which calls \<open>transport.close()\<close>, which calls the wrapper,
  which calls the callback again.
\<close>

lemma exec_never_returns:
  assumes "exec c s = Some y"
  shows "\<not> (c \<in> {TransportOnclose tr, AppOnclose tr, ServerClose tr, TransportClose tr} \<and>
            onclose_of s tr = Some Wrapped \<and> sid_of s tr \<noteq> None)"
proof (rule exec.raw_induct
    [where P = "\<lambda>c s y. \<not> (c \<in> {TransportOnclose tr, AppOnclose tr, ServerClose tr,
        TransportClose tr} \<and> onclose_of s tr = Some Wrapped \<and> sid_of s tr \<noteq> None)"], goal_cases)
  case (1 f c s y)
  note IH = 1(1) and eq = 1(2)
  show ?case
  proof
    assume a: "c \<in> {TransportOnclose tr, AppOnclose tr, ServerClose tr, TransportClose tr} \<and>
      onclose_of s tr = Some Wrapped \<and> sid_of s tr \<noteq> None"
    then obtain k where k: "sid_of s tr = Some k" and w: "onclose_of s tr = Some Wrapped"
      by auto
    from a consider "c = TransportOnclose tr" | "c = AppOnclose tr" | "c = ServerClose tr"
      | "c = TransportClose tr" by auto
    then show False
    proof cases
      case 1
      with eq w obtain y' where "f (AppOnclose tr) s = Some y'"
        by (auto simp: bind_eq_Some_conv)
      from IH [OF this] k w show False by simp
    next
      case 2
      with eq k have "f (ServerClose tr) (s\<lparr>sessions := (sessions s)(k := None)\<rparr>) = Some y"
        by simp
      from IH [OF this] k w show False by simp
    next
      case 3
      with eq have "f (TransportClose tr) s = Some y" by simp
      from IH [OF this] k w show False by simp
    next
      case 4
      with eq have "f (TransportOnclose tr) s = Some y" by simp
      from IH [OF this] k w show False by simp
    qed
  qed
next
  show "exec c s = Some y" by (rule assms)
qed

lemma exec_Wrapped:
  assumes "onclose_of s tr = Some Wrapped" "sid_of s tr = Some k"
  shows "exec (TransportOnclose tr) s = None"
proof (cases "exec (TransportOnclose tr) s")
  case None
  then show ?thesis .
next
  case (Some y)
  from exec_never_returns [OF Some, of tr] assms show ?thesis by simp
qed

lemma exec_SdkOwn:
  assumes "onclose_of s tr = Some SdkOwn"
  shows "exec (TransportOnclose tr) s = Some s"
  using assms by (subst exec.simps) simp

text \<open>A close under either behaviour of the SDK, and a failed handshake.\<close>

lemma close_when_wrapped:
  assumes "onclose_of s tr = Some Wrapped" "sid_of s tr = Some k"
  shows "step sdk (Close tr) s = None"
  using assms by (simp add: step_def exec_Wrapped [where k = k])

lemma close_when_overwritten:
  assumes "onclose_of s tr = Some SdkOwn" "sid_of s tr = Some k"
  shows "step sdk (Close tr) s =
           Some (s\<lparr>closed_transports := insert tr (closed_transports s)\<rparr>)"
  using assms by (simp add: step_def exec_SdkOwn)

lemma begin_sets_callback:
  "onclose_of (fst (handleSseRequest_begin sdk k s res)) (Suc (next_obj s)) =
     Some (case sdk of Wraps \<Rightarrow> Wrapped | Overwrites \<Rightarrow> SdkOwn) \<and>
   sid_of (fst (handleSseRequest_begin sdk k s res)) (Suc (next_obj s)) = Some k \<and>
   sessions (fst (handleSseRequest_begin sdk k s res)) k =
     Some \<lparr>server = next_obj s, transport = Suc (next_obj s)\<rparr>"
  by (simp add: handleSseRequest_begin_def connect_takes_over_def Let_def)

lemma handshake_failure_404:
  assumes "sid_of s tr = Some k" "k \<noteq> []" "step sdk (ConnectFail tr) s = Some s'"
  shows "sessions s' k = None \<and> post_reply s' k = (Some 404, ''Unknown session'')"
  using assms
  by (auto simp: step_def handleSseRequest_catch_def post_reply_def handlePostMessage_def
      Let_def end_with_def writeHead_def setHeader_def fresh_response_def)

text \<open>
  C2 says that after a transport's close event its entry is gone and a \<open>POST\<close> bearing its
  identifier is answered 404. Here a client opens an SSE session that gets the identifier
  \<open>abc\<close>, the handshake succeeds, and the client disconnects. With an SDK that wraps the
  callback, the close does not return, so no \<open>POST\<close> is answered afterwards. With an SDK
  that replaces the callback, the entry stays in the map under a transport that has
  signalled close, and a \<open>POST\<close> bearing \<open>abc\<close> is handed to that transport instead of
  being answered 404.
\<close>

theorem close_does_not_give_404:
  "run Wraps [SseGet ''abc'', ConnectOk 1, Close 1] init_state = None \<and>
   run Overwrites [SseGet ''abc'', ConnectOk 1, Close 1] init_state =
     Some \<lparr>sessions = [''abc'' \<mapsto> \<lparr>server = 0, transport = 1\<rparr>],
           sid_of = [1 \<mapsto> ''abc''],
           onclose_of = [1 \<mapsto> SdkOwn],
           closed_transports = {1},
           next_obj = 2\<rparr> \<and>
   snd (handlePostMessage
          \<lparr>sessions = [''abc'' \<mapsto> \<lparr>server = 0, transport = 1\<rparr>],
           sid_of = [1 \<mapsto> ''abc''],
           onclose_of = [1 \<mapsto> SdkOwn],
           closed_transports = {1},
           next_obj = 2\<rparr> h (Some ''abc'') res) = [Lookup ''abc'', Delegate 1]"
proof (intro conjI)
  let ?w = "fst (handleSseRequest_begin Wraps ''abc'' init_state fresh_response)"
  have w: "onclose_of ?w 1 = Some Wrapped" "sid_of ?w 1 = Some ''abc''"
    using begin_sets_callback [of Wraps "''abc''" init_state fresh_response]
    by (simp_all add: init_state_def)
  have "step Wraps (Close 1) ?w = None"
    by (rule close_when_wrapped [OF w])
  then show "run Wraps [SseGet ''abc'', ConnectOk 1, Close 1] init_state = None"
    by (simp add: run_def step_def)
next
  let ?o = "fst (handleSseRequest_begin Overwrites ''abc'' init_state fresh_response)"
  have o: "onclose_of ?o 1 = Some SdkOwn" "sid_of ?o 1 = Some ''abc''"
    using begin_sets_callback [of Overwrites "''abc''" init_state fresh_response]
    by (simp_all add: init_state_def)
  have "step Overwrites (Close 1) ?o =
      Some (?o\<lparr>closed_transports := insert 1 (closed_transports ?o)\<rparr>)"
    by (rule close_when_overwritten [OF o])
  then have "run Overwrites [SseGet ''abc'', ConnectOk 1, Close 1] init_state =
      Some (?o\<lparr>closed_transports := insert 1 (closed_transports ?o)\<rparr>)"
    by (simp add: run_def step_def)
  also have "?o\<lparr>closed_transports := insert 1 (closed_transports ?o)\<rparr> =
     \<lparr>sessions = [''abc'' \<mapsto> \<lparr>server = 0, transport = 1\<rparr>],
      sid_of = [1 \<mapsto> ''abc''],
      onclose_of = [1 \<mapsto> SdkOwn],
      closed_transports = {1},
      next_obj = 2\<rparr>"
    by (simp add: handleSseRequest_begin_def connect_takes_over_def init_state_def Let_def)
  finally show "run Overwrites [SseGet ''abc'', ConnectOk 1, Close 1] init_state =
     Some \<lparr>sessions = [''abc'' \<mapsto> \<lparr>server = 0, transport = 1\<rparr>],
           sid_of = [1 \<mapsto> ''abc''],
           onclose_of = [1 \<mapsto> SdkOwn],
           closed_transports = {1},
           next_obj = 2\<rparr>" .
next
  show "snd (handlePostMessage
          \<lparr>sessions = [''abc'' \<mapsto> \<lparr>server = 0, transport = 1\<rparr>],
           sid_of = [1 \<mapsto> ''abc''],
           onclose_of = [1 \<mapsto> SdkOwn],
           closed_transports = {1},
           next_obj = 2\<rparr> h (Some ''abc'') res) = [Lookup ''abc'', Delegate 1]"
    by (simp add: handlePostMessage_def Let_def split: outcome.splits)
qed

section \<open>Properties of the widget load\<close>







section \<open>Properties of the port\<close>

lemma Number_empty: "Number [] = Fin 0"
  by (simp add: Number_def trim_def)

text \<open>
  C8 says that a \<open>PORT\<close> that is unset or not numeric gives the default port. With \<open>PORT\<close>
  set to the empty string, \<open>Number\<close> returns 0, which is finite, and both variants take 0
  as the port instead of their default. The lemmas after this one show the rest of the
  claim on the code: an unset \<open>PORT\<close> and a \<open>PORT\<close> that \<open>Number\<close> does not turn into a
  finite number give the default, and a string of decimal digits gives its value.
\<close>

theorem port_empty_string:
  "port_simple (Some []) = 0 \<and> port_richer (Some []) = 0"
  by (simp add: port_simple_def port_richer_def port_of_def Number_empty)

lemma port_unset: "port_simple None = 10000 \<and> port_richer None = 8000"
  by (simp add: port_simple_def port_richer_def port_of_def)

lemma port_not_finite:
  "Number v \<in> {NaN, PosInfinity, NegInfinity} \<Longrightarrow>
     port_simple (Some v) = 10000 \<and> port_richer (Some v) = 8000"
  by (auto simp: port_simple_def port_richer_def port_of_def)

lemma Number_abc: "Number ''abc'' = NaN"
  by code_simp


lemma isDigit_props:
  assumes "isDigit c"
  shows "\<not> isSpace c" "toLowerChar c = c" "c \<noteq> CHR ''x''" "c \<noteq> CHR ''o''" "c \<noteq> CHR ''b''"
    "c \<noteq> CHR ''+''" "c \<noteq> CHR ''-''" "c \<noteq> CHR ''I''"
proof -
  from assms consider "c = CHR ''0''" | "c = CHR ''1''" | "c = CHR ''2''" | "c = CHR ''3''"
    | "c = CHR ''4''" | "c = CHR ''5''" | "c = CHR ''6''" | "c = CHR ''7''" | "c = CHR ''8''"
    | "c = CHR ''9''"
    by (auto simp: isDigit_def)
  then show "\<not> isSpace c" "toLowerChar c = c" "c \<noteq> CHR ''x''" "c \<noteq> CHR ''o''" "c \<noteq> CHR ''b''"
    "c \<noteq> CHR ''+''" "c \<noteq> CHR ''-''" "c \<noteq> CHR ''I''"
    by (cases; simp add: isSpace_def toLowerChar_def)+
qed

lemma trim_digits:
  assumes "list_all isDigit s"
  shows "trim s = s"
proof (cases s)
  case Nil
  then show ?thesis by (simp add: trim_def)
next
  case (Cons c cs)
  with assms have "\<not> isSpace (hd s)"
    by (simp add: isDigit_props(1))
  then have 1: "dropWhile isSpace s = s"
    by (simp add: dropWhile_eq_self_iff)
  from Cons assms have "isDigit (last s)"
    by (metis last_in_set list.distinct(1) list_all_iff)
  then have "\<not> isSpace (hd (rev s))"
    unfolding hd_rev by (rule isDigit_props(1))
  then have 2: "dropWhile isSpace (rev s) = rev s"
    by (simp add: dropWhile_eq_self_iff)
  show ?thesis
    by (simp add: trim_def 1 2)
qed

lemma nonDecimal_digits:
  assumes "list_all isDigit s"
  shows "nonDecimal s = None"
proof (cases s)
  case Nil
  then show ?thesis by (simp add: nonDecimal_def)
next
  case (Cons c0 r)
  show ?thesis
  proof (cases r)
    case Nil
    with Cons show ?thesis by (simp add: nonDecimal_def)
  next
    case (Cons c1 ds)
    with assms \<open>s = c0 # r\<close> have "isDigit c1" by simp
    from isDigit_props(2-5) [OF this] Cons \<open>s = c0 # r\<close>
    show ?thesis by (simp add: nonDecimal_def)
  qed
qed

lemma Number_digits:
  assumes "s \<noteq> []" "list_all isDigit s" "digitsValue 10 s < 2 ^ 53"
  shows "Number s = Fin (of_nat (digitsValue 10 s))"
proof -
  from assms obtain c cs where s: "s = c # cs" and c: "isDigit c"
    by (cases s) auto
  have inf: "s \<noteq> ''Infinity''"
    using s isDigit_props(8) [OF c] by auto
  have tw: "takeWhile isDigit s = s" "dropWhile isDigit s = []"
    using assms(2) by (simp_all add: list_all_iff)
  have "(of_nat (digitsValue 10 s) :: rat) < 2 ^ 53"
    using assms(3) by (metis of_nat_less_iff of_nat_numeral of_nat_power)
  moreover have "(2::rat) ^ 53 \<le> 2 ^ 1024 - 2 ^ 970"
    by simp
  moreover have "(0::rat) \<le> of_nat (digitsValue 10 s)"
    by simp
  ultimately have td: "to_double (of_nat (digitsValue 10 s)) = Fin (of_nat (digitsValue 10 s))"
    unfolding to_double_def by auto
  have "unsignedDecimal s = Fin (of_nat (digitsValue 10 s))"
    using inf assms(1) by (simp add: unsignedDecimal_def tw td del: of_nat_power)
  then have "strDecimal s = Fin (of_nat (digitsValue 10 s))"
    using s isDigit_props(6,7) [OF c] by (simp add: strDecimal_def)
  then show ?thesis
    using assms(1) by (simp add: Number_def trim_digits [OF assms(2)] nonDecimal_digits [OF assms(2)])
qed

lemma port_digits:
  assumes "s \<noteq> []" "list_all isDigit s" "digitsValue 10 s < 2 ^ 53"
  shows "port_simple (Some s) = of_nat (digitsValue 10 s) \<and>
         port_richer (Some s) = of_nat (digitsValue 10 s)"
  by (simp add: port_simple_def port_richer_def port_of_def Number_digits [OF assms])

lemma port_examples:
  "port_simple (Some ''8080'') = 8080" "port_richer (Some ''3000'') = 3000"
  "port_simple (Some ''abc'') = 10000" "port_richer (Some ''abc'') = 8000"
  "port_simple (Some ''   '') = 0"
proof -
  have d: "digitsValue 10 ''8080'' = 8080" "digitsValue 10 ''3000'' = 3000"
    by code_simp+
  have "''8080'' \<noteq> [] \<and> list_all isDigit ''8080'' \<and> digitsValue 10 ''8080'' < 2 ^ 53"
    by (simp add: d isDigit_def)
  then show "port_simple (Some ''8080'') = 8080"
    using port_digits [of "''8080''"] d by simp
  have "''3000'' \<noteq> [] \<and> list_all isDigit ''3000'' \<and> digitsValue 10 ''3000'' < 2 ^ 53"
    by (simp add: d isDigit_def)
  then show "port_richer (Some ''3000'') = 3000"
    using port_digits [of "''3000''"] d by simp
  show "port_simple (Some ''abc'') = 10000" "port_richer (Some ''abc'') = 8000"
    using port_not_finite [of "''abc''"] by (simp_all add: Number_abc)
  have "Number ''   '' = Fin 0"
    by (simp add: Number_def trim_def isSpace_def)
  then show "port_simple (Some ''   '') = 0"
    by (simp add: port_simple_def port_of_def)
qed

end
